theory Spec2Isabelle
  imports Main "HOL-Library.Word"
begin

unbundle bit_operations_syntax

section \<open>Bytes, slices and run-time panics\<close>

text \<open>
  The wallet program (package main of the source file) works on Go byte slices. A byte is an
  8-bit word. The value of a slice is the list of its elements; where only the elements
  matter (results of hash functions, freshly built payloads) a slice is modelled as a
  \<open>byte list\<close>.

  Go checks the upper bound of a slice expression \<open>s[:high]\<close> against the capacity of
  \<open>s\<close>, not against its length. \<open>HashPubKey\<close> re-slices its argument with
  \<open>pubKey[:32]\<close>, so for the public key the bytes of the backing array behind the length
  are part of the model: \<open>contents\<close> are the \<open>len\<close> elements of the slice and
  \<open>spare\<close> the \<open>cap - len\<close> bytes of the backing array that follow them.
\<close>

type_synonym byte = "8 word"

record slice =
  contents :: "byte list"
  spare :: "byte list"

definition slen :: "slice \<Rightarrow> nat" where
  "slen s = length (contents s)"

definition scap :: "slice \<Rightarrow> nat" where
  "scap s = length (contents s) + length (spare s)"

text \<open>
  The error values of the specification (section 7) and the run-time panics of the Go code:
  a slice expression or an index out of range, and \<open>log.Panic(err)\<close>.
\<close>

datatype error = RandomSourceError | InvalidCharacterError

datatype panic = SliceBoundsOutOfRange | IndexOutOfRange | LogPanic error

text \<open>\<open>s[:high]\<close> on a slice with a backing array: in range iff \<open>high \<le> cap(s)\<close>.\<close>

definition reslice_to :: "slice \<Rightarrow> nat \<Rightarrow> panic + byte list" where
  "reslice_to s high =
     (if high \<le> scap s then Inr (take high (contents s @ spare s))
      else Inl SliceBoundsOutOfRange)"

text \<open>
  \<open>s[low:high]\<close> with computed indices of Go type \<open>int\<close>. It is used below only with
  \<open>high \<le> len(s)\<close>, where the capacity plays no role.
\<close>

definition subslice :: "byte list \<Rightarrow> int \<Rightarrow> int \<Rightarrow> panic + byte list" where
  "subslice s low high =
     (if 0 \<le> low \<and> low \<le> high \<and> high \<le> int (length s)
      then Inr (take (nat high - nat low) (drop (nat low) s))
      else Inl SliceBoundsOutOfRange)"

text \<open>\<open>s[i]\<close>.\<close>

definition index :: "byte list \<Rightarrow> nat \<Rightarrow> panic + byte" where
  "index s i = (if i < length s then Inr (s ! i) else Inl IndexOutOfRange)"

text \<open>
  \<open>append(s, t...)\<close> for a destination \<open>s\<close> without spare capacity: with nothing to
  append the result is \<open>s\<close> itself, otherwise a new backing array whose capacity the
  run-time system chooses; \<open>extra\<close> is the number of (zeroed) bytes it leaves behind the
  length.
\<close>

definition append_full :: "byte list \<Rightarrow> byte list \<Rightarrow> nat \<Rightarrow> slice" where
  "append_full s t extra =
     (if t = [] then \<lparr>contents = s, spare = []\<rparr>
      else \<lparr>contents = s @ t, spare = replicate extra 0\<rparr>)"

section \<open>Library functions the wallet calls\<close>

subsection \<open>math/big: bytes of an unsigned integer\<close>

text \<open>
  \<open>big.Int.SetBytes\<close> reads a byte slice as a big-endian unsigned integer;
  \<open>big.Int.Bytes\<close> returns the big-endian bytes of the absolute value, without leading
  zero bytes (the empty slice for 0).
\<close>

definition SetBytes :: "byte list \<Rightarrow> nat" where
  "SetBytes buf = foldl (\<lambda>x v. x * 256 + unat v) 0 buf"

fun Bytes :: "nat \<Rightarrow> byte list" where
  "Bytes x = (if x = 0 then [] else Bytes (x div 256) @ [of_nat (x mod 256)])"

subsection \<open>bytes.Compare\<close>

text \<open>Lexicographic comparison of two byte slices: 0 if equal, -1 if less, +1 if greater.\<close>

fun Compare :: "byte list \<Rightarrow> byte list \<Rightarrow> int" where
  "Compare [] [] = 0"
| "Compare [] (y # ys) = - 1"
| "Compare (x # xs) [] = 1"
| "Compare (x # xs) (y # ys) = (if x < y then - 1 else if y < x then 1 else Compare xs ys)"

subsection \<open>encoding/hex\<close>

text \<open>
  \<open>hex.EncodeToString\<close>: two characters of \<open>hextable\<close> for every byte, the high nibble
  first.
\<close>

definition hextable :: string where
  "hextable = ''0123456789abcdef''"

definition EncodeToString :: "byte list \<Rightarrow> string" where
  "EncodeToString src =
     concat (map (\<lambda>v. [hextable ! unat (drop_bit 4 v), hextable ! unat (v AND 0x0f)]) src)"

subsection \<open>The Base58 codec\<close>

text \<open>
  Modelled from the spec: the Base58 codec (package base58 of btcutil, which the wallet
  imports; its source is not part of the repository). Section 4.5: \<open>encode\<close> reads the
  input as a big-endian unsigned integer, writes it in base 58 over the alphabet below and
  puts one \<open>1\<close> in front for every leading zero byte of the input; \<open>decode\<close> is the
  inverse and fails with \<open>InvalidCharacterError\<close> at a character outside the alphabet.
\<close>

definition alphabet :: string where
  "alphabet = ''123456789ABCDEFGHJKLMNPQRSTUVWXYZabcdefghijkmnopqrstuvwxyz''"

definition alphabetIdx0 :: char where
  "alphabetIdx0 = CHR ''1''"

fun encode_digits :: "nat \<Rightarrow> string" where
  "encode_digits x =
     (if x = 0 then [] else encode_digits (x div 58) @ [alphabet ! (x mod 58)])"

definition base58Encode :: "byte list \<Rightarrow> string" where
  "base58Encode b =
     replicate (length (takeWhile (\<lambda>v. v = 0) b)) alphabetIdx0 @ encode_digits (SetBytes b)"

fun index_of :: "'a list \<Rightarrow> 'a \<Rightarrow> nat option" where
  "index_of [] c = None"
| "index_of (x # xs) c = (if x = c then Some 0 else map_option Suc (index_of xs c))"

fun decode_digits :: "string \<Rightarrow> nat \<Rightarrow> error + nat" where
  "decode_digits [] answer = Inr answer"
| "decode_digits (c # cs) answer =
     (case index_of alphabet c of
        None \<Rightarrow> Inl InvalidCharacterError
      | Some d \<Rightarrow> decode_digits cs (answer * 58 + d))"

definition base58Decode :: "string \<Rightarrow> error + byte list" where
  "base58Decode s =
     (case decode_digits s 0 of
        Inl e \<Rightarrow> Inl e
      | Inr answer \<Rightarrow>
          Inr (replicate (length (takeWhile (\<lambda>c. c = alphabetIdx0) s)) 0 @ Bytes answer))"

text \<open>
  \<open>base58.Decode\<close> as \<open>ValidateAddress\<close> calls it:
  \<open>pubKeyHash := base58.Decode(address)\<close> binds a single result of type \<open>[]byte\<close>, there
  is no error value at the call site. The library hands a failed decoding to its caller as
  the empty slice: btcutil's \<open>Decode\<close> returns \<open>[]byte("")\<close> at the first character
  outside the alphabet.
\<close>

definition Decode :: "string \<Rightarrow> byte list" where
  "Decode s = (case base58Decode s of Inl e \<Rightarrow> [] | Inr b \<Rightarrow> b)"

section \<open>The wallet\<close>

text \<open>
  The hash functions (\<open>sha256.Sum256\<close>, RIPEMD-160 through \<open>Write\<close> and \<open>Sum\<close>,
  \<open>crypto.Keccak256\<close>) are parameters of the functions that call them; the theorems
  state the digest lengths they rely on: 32, 20 and 32 bytes. The \<open>Write\<close> of a hash never
  returns an error, so the \<open>log.Panic\<close> behind it in \<open>HashPubKey\<close> has no branch here.
  The calls of \<open>fmt.Println\<close> print lengths to the standard output and influence no value;
  the output stream is not part of the model.
\<close>

definition walletVersion :: byte where
  "walletVersion = 0x00"

definition compressedPublicKeyPrefix :: byte where
  "compressedPublicKeyPrefix = 0x02"

definition addressChecksumLen :: nat where
  "addressChecksumLen = 4"

text \<open>
  \<open>ecdsa.PrivateKey\<close>: the secret scalar \<open>D\<close> and the public point \<open>(X, Y)\<close> on the
  curve \<open>crypto.S256()\<close>, that is secp256k1: \<open>y\<^sup>2 = x\<^sup>3 + 7\<close> over the prime field
  of order \<open>S256_P\<close>.
\<close>

record ecdsa_PrivateKey =
  key_X :: nat
  key_Y :: nat
  key_D :: nat

definition S256_P :: nat where
  "S256_P = 2 ^ 256 - 2 ^ 32 - 977"

definition IsOnCurve :: "nat \<Rightarrow> nat \<Rightarrow> bool" where
  "IsOnCurve x y \<longleftrightarrow> x < S256_P \<and> y < S256_P \<and> (y * y) mod S256_P = (x * x * x + 7) mod S256_P"

record Wallet =
  PrivateKey :: ecdsa_PrivateKey
  PublicKey :: slice

text \<open>
  \<open>newKeyPair\<close>. The outcome of \<open>ecdsa.GenerateKey(curve, rand.Reader)\<close> is the
  argument \<open>generated\<close>: an error of the random source, or a key. \<open>X.Bytes()\<close> is a slice
  without spare capacity.
\<close>

definition newKeyPair :: "error + ecdsa_PrivateKey \<Rightarrow> nat \<Rightarrow> panic + ecdsa_PrivateKey \<times> slice" where
  "newKeyPair generated extra =
     (case generated of
        Inl err \<Rightarrow> Inl (LogPanic err)
      | Inr private \<Rightarrow>
          (let pubKey = append_full (Bytes (key_X private)) (Bytes (key_Y private)) extra
           in Inr (private, pubKey)))"

definition NewWallet :: "error + ecdsa_PrivateKey \<Rightarrow> nat \<Rightarrow> panic + Wallet" where
  "NewWallet generated extra =
     (case newKeyPair generated extra of
        Inl p \<Rightarrow> Inl p
      | Inr (private, public) \<Rightarrow> Inr \<lparr>PrivateKey = private, PublicKey = public\<rparr>)"

text \<open>
  \<open>checksum\<close>: the first \<open>addressChecksumLen\<close> bytes of the double SHA-256.
  \<open>sha256.Sum256\<close> returns an array of 32 bytes, so \<open>secondSHA[:addressChecksumLen]\<close>
  is always in range.
\<close>

definition checksum :: "(byte list \<Rightarrow> byte list) \<Rightarrow> byte list \<Rightarrow> byte list" where
  "checksum sha256 payload =
     (let firstSHA = sha256 payload;
          secondSHA = sha256 firstSHA
      in take addressChecksumLen secondSHA)"

definition HashPubKey ::
  "(byte list \<Rightarrow> byte list) \<Rightarrow> (byte list \<Rightarrow> byte list) \<Rightarrow> slice \<Rightarrow> panic + byte list" where
  "HashPubKey sha256 ripemd160 pubKey =
     (case reslice_to pubKey 32 of
        Inl p \<Rightarrow> Inl p
      | Inr x \<Rightarrow>
          (let publicSHA256 = sha256 ([compressedPublicKeyPrefix] @ x);
               publicRIPEMD160 = ripemd160 publicSHA256
           in Inr publicRIPEMD160))"

definition GetBtcAddress ::
  "(byte list \<Rightarrow> byte list) \<Rightarrow> (byte list \<Rightarrow> byte list) \<Rightarrow> Wallet \<Rightarrow> panic + string" where
  "GetBtcAddress sha256 ripemd160 w =
     (case HashPubKey sha256 ripemd160 (PublicKey w) of
        Inl p \<Rightarrow> Inl p
      | Inr pubKeyHash \<Rightarrow>
          (let walletVersionedPayload = [walletVersion] @ pubKeyHash;
               checksum' = checksum sha256 walletVersionedPayload;
               fullPayload = walletVersionedPayload @ checksum';
               address = base58Encode fullPayload
           in Inr address))"

definition GetEthAddress :: "(byte list \<Rightarrow> byte list) \<Rightarrow> Wallet \<Rightarrow> panic + string" where
  "GetEthAddress keccak256 w =
     (let publicHash = keccak256 (contents (PublicKey w))
      in case subslice publicHash (int (length publicHash) - 20) (int (length publicHash)) of
           Inl p \<Rightarrow> Inl p
         | Inr last20 \<Rightarrow> Inr (EncodeToString last20))"

definition ValidateAddress :: "(byte list \<Rightarrow> byte list) \<Rightarrow> string \<Rightarrow> panic + bool" where
  "ValidateAddress sha256 address =
     (let pubKeyHash = Decode address;
          n = int (length pubKeyHash)
      in case subslice pubKeyHash (n - int addressChecksumLen) n of
           Inl p \<Rightarrow> Inl p
         | Inr actualChecksum \<Rightarrow>
             (case index pubKeyHash 0 of
                Inl p \<Rightarrow> Inl p
              | Inr version \<Rightarrow>
                  (case subslice pubKeyHash 1 (n - int addressChecksumLen) of
                     Inl p \<Rightarrow> Inl p
                   | Inr pubKeyHash' \<Rightarrow>
                       (let targetChecksum = checksum sha256 ([version] @ pubKeyHash')
                        in Inr (Compare actualChecksum targetChecksum = 0)))))"

text \<open>
  Stand-ins for the hash functions, to evaluate the wallet on concrete inputs: the first
  \<open>n\<close> bytes of the input followed by zero bytes. Every theorem below holds for all hash
  functions; these only instantiate them.
\<close>

definition prefix_digest :: "nat \<Rightarrow> byte list \<Rightarrow> byte list" where
  "prefix_digest n x = take n (x @ replicate n 0)"

section \<open>Properties of the library functions\<close>

declare Bytes.simps [simp del] encode_digits.simps [simp del]

lemma distinct_alphabet: "distinct alphabet"
  by (simp add: alphabet_def)

lemma length_alphabet: "length alphabet = 58"
  by (simp add: alphabet_def)

lemma index_of_nth: "distinct xs \<Longrightarrow> i < length xs \<Longrightarrow> index_of xs (xs ! i) = Some i"
proof (induction xs arbitrary: i)
  case Nil
  then show ?case by simp
next
  case (Cons x xs)
  show ?case
  proof (cases i)
    case 0
    then show ?thesis by simp
  next
    case (Suc j)
    with Cons.prems have "xs ! j \<in> set xs" "x \<notin> set xs" "j < length xs" by auto
    with Cons.IH [of j] Cons.prems Suc show ?thesis by auto
  qed
qed


lemma index_of_alphabet: "d < 58 \<Longrightarrow> index_of alphabet (alphabet ! d) = Some d"
  using index_of_nth [OF distinct_alphabet, of d] by (simp add: length_alphabet)

lemma index_of_idx0: "index_of alphabet alphabetIdx0 = Some 0"
  by (simp add: alphabet_def alphabetIdx0_def)

lemma SetBytes_snoc: "SetBytes (xs @ [v]) = SetBytes xs * 256 + unat v"
  by (simp add: SetBytes_def)

lemma SetBytes_eq_0: "SetBytes xs = 0 \<longleftrightarrow> (\<forall>x\<in>set xs. x = 0)"
proof (induction xs rule: rev_induct)
  case Nil
  show ?case by (simp add: SetBytes_def)
next
  case (snoc v xs)
  then show ?case by (auto simp: SetBytes_snoc unat_eq_0)
qed

lemma Bytes_step:
  "Bytes (n * 256 + unat (v::byte)) = (if n = 0 \<and> v = 0 then [] else Bytes n @ [v])"
proof -
  have lt: "unat v < 256" using unsigned_less [of v, where 'a = nat] by simp
  then have d: "(n * 256 + unat v) div 256 = n" and m: "(n * 256 + unat v) mod 256 = unat v"
    by simp_all
  have w: "(of_nat ((n * 256 + unat v) mod 256) :: byte) = v"
    by (simp only: m) simp
  have z: "n * 256 + unat v = 0 \<longleftrightarrow> n = 0 \<and> v = 0"
    by (simp add: unat_eq_0)
  have "Bytes (n * 256 + unat v) =
      (if n * 256 + unat v = 0 then []
       else Bytes ((n * 256 + unat v) div 256) @ [of_nat ((n * 256 + unat v) mod 256)])"
    by (rule Bytes.simps)
  then show ?thesis unfolding d w z .
qed

lemma Bytes_SetBytes: "Bytes (SetBytes b) = dropWhile (\<lambda>v. v = 0) b"
proof (induction b rule: rev_induct)
  case Nil
  show ?case by (simp add: SetBytes_def Bytes.simps)
next
  case (snoc v xs)
  show ?case
  proof (cases "\<forall>x\<in>set xs. x = 0")
    case True
    then have z: "SetBytes xs = 0" by (simp add: SetBytes_eq_0)
    have "Bytes (0 * 256 + unat v) = (if v = 0 then [] else [v])"
      by (simp only: Bytes_step) (simp add: Bytes.simps [of 0])
    with True z show ?thesis
      by (simp add: SetBytes_snoc dropWhile_append2)
  next
    case False
    then have "SetBytes xs \<noteq> 0" by (simp add: SetBytes_eq_0)
    with False snoc show ?thesis
      by (auto simp: SetBytes_snoc Bytes_step dropWhile_append1)
  qed
qed

lemma zeros_takeWhile:
  "replicate (length (takeWhile (\<lambda>v. v = 0) b)) (0::byte) = takeWhile (\<lambda>v. v = 0) b"
  by (induction b) auto

lemma decode_digits_append:
  "decode_digits (xs @ ys) a =
     (case decode_digits xs a of Inl e \<Rightarrow> Inl e | Inr a' \<Rightarrow> decode_digits ys a')"
  by (induction xs arbitrary: a) (auto split: option.splits)

lemma encode_digits_step:
  "x \<noteq> 0 \<Longrightarrow> encode_digits x = encode_digits (x div 58) @ [alphabet ! (x mod 58)]"
  by (subst encode_digits.simps) simp

lemma decode_encode_digits: "decode_digits (encode_digits n) 0 = Inr n"
proof (induction n rule: encode_digits.induct)
  case (1 x)
  show ?case
  proof (cases "x = 0")
    case True
    then show ?thesis by (simp add: encode_digits.simps)
  next
    case False
    with 1 [OF False] show ?thesis
      by (simp add: encode_digits_step decode_digits_append index_of_alphabet)
  qed
qed

lemma decode_digits_ones: "decode_digits (replicate k alphabetIdx0 @ s) 0 = decode_digits s 0"
  by (induction k) (simp_all add: index_of_idx0)

lemma encode_digits_hd: "encode_digits n = [] \<or> hd (encode_digits n) \<noteq> alphabetIdx0"
proof (induction n rule: encode_digits.induct)
  case (1 x)
  show ?case
  proof (cases "x = 0")
    case True
    then show ?thesis by (simp add: encode_digits.simps)
  next
    case nz: False
    show ?thesis
    proof (cases "x div 58 = 0")
      case True
      then have small: "x mod 58 = x" "x < 58" using nz by (auto simp: div_eq_0_iff)
      then have "index_of alphabet (alphabet ! x) = Some x" by (simp add: index_of_alphabet)
      then have "alphabet ! x \<noteq> alphabetIdx0" using nz index_of_idx0 by auto
      with True small encode_digits_step [OF nz] show ?thesis
        by (simp add: encode_digits.simps [of 0])
    next
      case False
      then have "encode_digits (x div 58) \<noteq> []"
        by (subst encode_digits.simps) simp
      with 1 [OF nz] encode_digits_step [OF nz] show ?thesis by auto
    qed
  qed
qed

lemma takeWhile_ones:
  "takeWhile (\<lambda>c. c = alphabetIdx0) (replicate k alphabetIdx0 @ encode_digits n) =
     replicate k alphabetIdx0"
proof -
  have "takeWhile (\<lambda>c. c = alphabetIdx0) (encode_digits n) = []"
    using encode_digits_hd [of n] by (cases "encode_digits n") auto
  then show ?thesis by (induction k) simp_all
qed

lemma decode_encode: "base58Decode (base58Encode b) = Inr b"
  by (simp add: base58Decode_def base58Encode_def decode_digits_ones decode_encode_digits
      takeWhile_ones Bytes_SetBytes zeros_takeWhile)

lemma Decode_Encode: "Decode (base58Encode b) = b"
  by (simp add: Decode_def decode_encode)

lemma leading_ones:
  "takeWhile (\<lambda>c. c = alphabetIdx0) (base58Encode b) =
     replicate (length (takeWhile (\<lambda>v. v = 0) b)) alphabetIdx0"
  by (simp add: base58Encode_def takeWhile_ones)






lemma Compare_eq_0: "Compare a b = 0 \<longleftrightarrow> a = b"
  by (induction a b rule: Compare.induct) auto

lemma ValidateAddress_short:
  assumes "length (Decode s) < 5"
  shows "ValidateAddress sha256 s = Inl SliceBoundsOutOfRange"
  using assms
  by (auto simp: ValidateAddress_def Let_def subslice_def index_def addressChecksumLen_def
      split: sum.splits if_splits)

lemma take_front: "p \<noteq> [] \<Longrightarrow> p ! 0 # take k (drop 1 p) = take (Suc k) p"
  by (cases p) simp_all

lemma ValidateAddress_long:
  assumes "5 \<le> length (Decode s)"
  shows "ValidateAddress sha256 s =
    Inr (drop (length (Decode s) - 4) (Decode s) =
           checksum sha256 (take (length (Decode s) - 4) (Decode s)))"
proof -
  let ?p = "Decode s"
  let ?n = "length ?p"
  have ne: "?p \<noteq> []"
  proof
    assume "?p = []"
    then have "?n = 0" by simp
    with assms show False by simp
  qed
  have a: "subslice ?p (int ?n - int addressChecksumLen) (int ?n) = Inr (drop (?n - 4) ?p)"
    using assms by (simp add: subslice_def addressChecksumLen_def nat_diff_distrib')
  have b: "index ?p 0 = Inr (?p ! 0)"
    using ne by (simp add: index_def)
  have c: "subslice ?p 1 (int ?n - int addressChecksumLen) = Inr (take (?n - 5) (drop 1 ?p))"
    using assms by (simp add: subslice_def addressChecksumLen_def nat_diff_distrib')
  have "Suc (?n - 5) = ?n - 4" using assms by arith
  then have d: "?p ! 0 # take (?n - 5) (drop (Suc 0) ?p) = take (?n - 4) ?p"
    using take_front [OF ne, of "?n - 5"] by simp
  show ?thesis
    unfolding ValidateAddress_def Let_def a b c by (simp add: Compare_eq_0 d)
qed

lemma nibble_hi: "unat (drop_bit 4 (v::byte)) < 16"
proof -
  have "unat v < 256" using unsigned_less [of v, where 'a = nat] by simp
  then show ?thesis by (simp add: drop_bit_eq_div unat_div)
qed

lemma nibble_lo: "unat ((v::byte) AND 0x0f) < 16"
proof -
  have "unat (v AND 15) \<le> unat (15 :: byte)"
    by (rule word_and_le1 [THEN word_le_nat_alt [THEN iffD1]])
  then show ?thesis by simp
qed

lemma length_EncodeToString: "length (EncodeToString src) = 2 * length src"
  by (induction src) (simp_all add: EncodeToString_def)

lemma length_hextable: "length hextable = 16"
  by (simp add: hextable_def)

lemma set_EncodeToString: "set (EncodeToString src) \<subseteq> set hextable"
  using nibble_hi nibble_lo by (auto simp: EncodeToString_def length_hextable)

section \<open>Properties of the wallet functions\<close>

lemma HashPubKey_in_range:
  assumes "32 \<le> scap pubKey"
  shows "HashPubKey sha256 ripemd160 pubKey =
    Inr (ripemd160 (sha256 (0x02 # take 32 (contents pubKey @ spare pubKey))))"
  using assms by (simp add: HashPubKey_def reslice_to_def Let_def compressedPublicKeyPrefix_def)

lemma HashPubKey_out_of_range:
  assumes "scap pubKey < 32"
  shows "HashPubKey sha256 ripemd160 pubKey = Inl SliceBoundsOutOfRange"
  using assms by (simp add: HashPubKey_def reslice_to_def)

lemma GetBtcAddress_in_range:
  assumes "32 \<le> scap (PublicKey w)"
  shows "GetBtcAddress sha256 ripemd160 w =
    (let pubKeyHash = ripemd160 (sha256 (0x02 # take 32 (contents (PublicKey w) @ spare (PublicKey w))));
         versioned = 0x00 # pubKeyHash
     in Inr (base58Encode (versioned @ take 4 (sha256 (sha256 versioned)))))"
  using assms
  by (simp add: GetBtcAddress_def HashPubKey_in_range Let_def walletVersion_def checksum_def
      addressChecksumLen_def)

lemma ValidateAddress_Encode:
  assumes "5 \<le> length payload"
  shows "ValidateAddress sha256 (base58Encode payload) =
    Inr (drop (length payload - 4) payload =
           take 4 (sha256 (sha256 (take (length payload - 4) payload))))"
  using ValidateAddress_long [of "base58Encode payload" sha256] assms
  by (simp add: Decode_Encode checksum_def addressChecksumLen_def Let_def)

lemma length_prefix_digest: "length (prefix_digest n x) = n"
  by (simp add: prefix_digest_def)

section \<open>The claims\<close>

text \<open>
  C1. The validator is to return \<open>false\<close> and never panic on malformed input. The code
  slices the decoded bytes without a length check: on the empty string, on a string with a
  character outside the alphabet and on a string that decodes to four bytes it panics with a
  slice bound out of range, whatever the hash function.
\<close>

theorem ValidateAddress_panics:
  "ValidateAddress sha256 '''' = Inl SliceBoundsOutOfRange \<and>
   ValidateAddress sha256 ''0'' = Inl SliceBoundsOutOfRange \<and>
   ValidateAddress sha256 ''1111'' = Inl SliceBoundsOutOfRange"
proof -
  have "Decode '''' = []" "Decode ''0'' = []" "Decode ''1111'' = [0, 0, 0, 0]"
    by (simp_all add: Decode_def base58Decode_def alphabet_def alphabetIdx0_def Bytes.simps)
  then show ?thesis
    using ValidateAddress_short [of "''''" sha256] ValidateAddress_short [of "''0''" sha256]
      ValidateAddress_short [of "''1111''" sha256]
    by simp
qed

text \<open>
  C2. For every 64-byte public key the Bitcoin address derivation returns, without panic,
  the Base58 encoding of \<open>0x00 \<parallel> pubKeyHash \<parallel> checksum\<close>, where \<open>pubKeyHash\<close> is
  \<open>ripemd160(sha256(0x02 \<parallel> first 32 bytes of the key))\<close> and the checksum the first 4
  bytes of the double SHA-256 of the 21-byte versioned payload; the address decodes to
  exactly 25 bytes.
\<close>

theorem GetBtcAddress_layout:
  assumes "\<And>x. length (sha256 x) = 32" and "\<And>x. length (ripemd160 x) = 20"
    and "slen (PublicKey w) = 64"
  shows "let pubKeyHash = ripemd160 (sha256 (0x02 # take 32 (contents (PublicKey w))));
             versioned = 0x00 # pubKeyHash;
             fullPayload = versioned @ take 4 (sha256 (sha256 versioned))
         in GetBtcAddress sha256 ripemd160 w = Inr (base58Encode fullPayload) \<and>
            length versioned = 21 \<and>
            base58Decode (base58Encode fullPayload) = Inr fullPayload \<and>
            length fullPayload = 25"
proof -
  have cap: "32 \<le> scap (PublicKey w)" and len: "32 \<le> length (contents (PublicKey w))"
    using assms(3) by (simp_all add: slen_def scap_def)
  show ?thesis
    using GetBtcAddress_in_range [OF cap, of sha256 ripemd160] len
    by (simp add: Let_def decode_encode assms(1) assms(2))
qed

theorem GetBtcAddress_layout_witness:
  "(\<forall>x. length (prefix_digest 32 x) = 32) \<and> (\<forall>x. length (prefix_digest 20 x) = 20) \<and>
   slen (PublicKey \<lparr>PrivateKey = \<lparr>key_X = 1, key_Y = 2, key_D = 3\<rparr>,
                    PublicKey = \<lparr>contents = replicate 64 9, spare = []\<rparr>\<rparr>) = 64 \<and>
   (\<exists>fullPayload.
      GetBtcAddress (prefix_digest 32) (prefix_digest 20)
        \<lparr>PrivateKey = \<lparr>key_X = 1, key_Y = 2, key_D = 3\<rparr>,
         PublicKey = \<lparr>contents = replicate 64 9, spare = []\<rparr>\<rparr> = Inr (base58Encode fullPayload) \<and>
      base58Decode (base58Encode fullPayload) = Inr fullPayload \<and>
      length fullPayload = 25)"
proof -
  let ?w = "\<lparr>PrivateKey = \<lparr>key_X = 1, key_Y = 2, key_D = 3\<rparr>,
             PublicKey = \<lparr>contents = replicate 64 9, spare = []\<rparr>\<rparr>"
  have h: "slen (PublicKey ?w) = 64" by (simp add: slen_def)
  from GetBtcAddress_layout [of "prefix_digest 32" "prefix_digest 20" ?w,
      OF length_prefix_digest length_prefix_digest h]
  show ?thesis
    unfolding Let_def using h length_prefix_digest by blast
qed

text \<open>
  C3. Validating a derived Bitcoin address returns \<open>true\<close>: for every wallet whose public
  key slice has room for the 32 bytes that \<open>HashPubKey\<close> reads (every 64-byte key, and
  every generated key of at least 32 bytes), \<open>GetBtcAddress\<close> returns an address and
  \<open>ValidateAddress\<close> accepts it. The version byte \<open>0x00\<close> and the prefix \<open>0x02\<close> are
  the constants of the program.
\<close>

theorem validate_derived_address:
  assumes "\<And>x. length (sha256 x) = 32" and "32 \<le> scap (PublicKey w)"
  shows "\<exists>address. GetBtcAddress sha256 ripemd160 w = Inr address \<and>
                   ValidateAddress sha256 address = Inr True"
proof -
  define versioned where
    "versioned = 0x00 # ripemd160 (sha256 (0x02 # take 32 (contents (PublicKey w) @ spare (PublicKey w))))"
  define fullPayload where "fullPayload = versioned @ take 4 (sha256 (sha256 versioned))"
  have a: "GetBtcAddress sha256 ripemd160 w = Inr (base58Encode fullPayload)"
    using GetBtcAddress_in_range [OF assms(2), of sha256 ripemd160]
    by (simp add: Let_def fullPayload_def versioned_def)
  have l: "length fullPayload = length versioned + 4" "1 \<le> length versioned"
    by (simp_all add: fullPayload_def assms(1) versioned_def)
  then have "5 \<le> length fullPayload" by simp
  from ValidateAddress_Encode [OF this, of sha256]
  have "ValidateAddress sha256 (base58Encode fullPayload) = Inr True"
    using l by (simp add: fullPayload_def)
  with a show ?thesis by blast
qed

theorem validate_derived_address_witness:
  "(\<forall>x. length (prefix_digest 32 x) = 32) \<and>
   32 \<le> scap (PublicKey \<lparr>PrivateKey = \<lparr>key_X = 1, key_Y = 2, key_D = 3\<rparr>,
                         PublicKey = \<lparr>contents = replicate 64 9, spare = []\<rparr>\<rparr>) \<and>
   (\<exists>address.
      GetBtcAddress (prefix_digest 32) (prefix_digest 20)
        \<lparr>PrivateKey = \<lparr>key_X = 1, key_Y = 2, key_D = 3\<rparr>,
         PublicKey = \<lparr>contents = replicate 64 9, spare = []\<rparr>\<rparr> = Inr address \<and>
      ValidateAddress (prefix_digest 32) address = Inr True)"
proof -
  let ?w = "\<lparr>PrivateKey = \<lparr>key_X = 1, key_Y = 2, key_D = 3\<rparr>,
             PublicKey = \<lparr>contents = replicate 64 9, spare = []\<rparr>\<rparr>"
  have h: "32 \<le> scap (PublicKey ?w)" by (simp add: scap_def)
  from validate_derived_address [of "prefix_digest 32" ?w "prefix_digest 20",
      OF length_prefix_digest h]
  show ?thesis using h length_prefix_digest by blast
qed

text \<open>
  C4. The Base58 codec is a round trip on every byte sequence, leading zero bytes included:
  decoding the encoding of \<open>b\<close> gives \<open>b\<close> back (so the byte length is preserved), also
  through the one-result \<open>Decode\<close> of the call site, and the encoding starts with exactly
  one character \<open>1\<close> for every leading zero byte of \<open>b\<close>.
\<close>

theorem base58_roundtrip:
  "base58Decode (base58Encode b) = Inr b \<and>
   Decode (base58Encode b) = b \<and>
   length (Decode (base58Encode b)) = length b \<and>
   takeWhile (\<lambda>c. c = CHR ''1'') (base58Encode b) =
     replicate (length (takeWhile (\<lambda>v. v = 0) b)) CHR ''1''"
  using leading_ones [of b] by (simp add: decode_encode Decode_Encode alphabetIdx0_def)

text \<open>
  C5. The generator is to return a public key of exactly 64 bytes, \<open>X\<close> and \<open>Y\<close> each
  padded to 32 bytes. The code concatenates \<open>X.Bytes()\<close> and \<open>Y.Bytes()\<close>, which carry
  no leading zero bytes. For the private key \<open>D = 153\<close> the point \<open>D\<cdot>G\<close> of secp256k1
  has an \<open>X\<close> coordinate below \<open>2\<^sup>2\<^sup>4\<^sup>8\<close>, and the public key has 63 bytes.
\<close>

theorem newKeyPair_short_public_key:
  "IsOnCurve 402275873819480217527543954245978242749948912216697339260697277277855307913
     19411896589701336237661297174692886517905212093130893753719983191330346751652 \<and>
   map_sum id (\<lambda>(private, pubKey). slen pubKey)
     (newKeyPair
        (Inr \<lparr>key_X = 402275873819480217527543954245978242749948912216697339260697277277855307913,
              key_Y = 19411896589701336237661297174692886517905212093130893753719983191330346751652,
              key_D = 153\<rparr>) extra) = Inr 63"
proof -
  have x: "length (Bytes 402275873819480217527543954245978242749948912216697339260697277277855307913) = 31"
    by (simp add: Bytes.simps)
  have y: "length (Bytes 19411896589701336237661297174692886517905212093130893753719983191330346751652) = 32"
    by (simp add: Bytes.simps)
  have c: "IsOnCurve 402275873819480217527543954245978242749948912216697339260697277277855307913
     19411896589701336237661297174692886517905212093130893753719983191330346751652"
    by (simp add: IsOnCurve_def S256_P_def)
  show ?thesis
    using x y c by (auto simp: newKeyPair_def append_full_def slen_def Let_def)
qed

text \<open>
  C6. The Ethereum address derivation returns the lowercase hex encoding of the last 20
  bytes of the Keccak-256 digest of the full public key, without any prefix byte; the result
  has exactly 40 characters, all of them in \<open>0123456789abcdef\<close>. This holds for every
  wallet, in particular for every 64-byte public key.
\<close>

theorem GetEthAddress_hex:
  assumes "\<And>x. length (keccak256 x) = 32"
  shows "let publicHash = keccak256 (contents (PublicKey w));
             address = EncodeToString (drop (length publicHash - 20) publicHash)
         in GetEthAddress keccak256 w = Inr address \<and>
            length address = 40 \<and>
            set address \<subseteq> set ''0123456789abcdef''"
  using set_EncodeToString [of "drop 12 (keccak256 (contents (PublicKey w)))"]
  by (simp add: GetEthAddress_def Let_def subslice_def assms length_EncodeToString hextable_def)

theorem GetEthAddress_hex_witness:
  "(\<forall>x. length (prefix_digest 32 x) = 32) \<and>
   GetEthAddress (prefix_digest 32)
     \<lparr>PrivateKey = \<lparr>key_X = 1, key_Y = 2, key_D = 3\<rparr>,
      PublicKey = \<lparr>contents = replicate 64 171, spare = []\<rparr>\<rparr> =
     Inr ''abababababababababababababababababababab''"
proof -
  let ?w = "\<lparr>PrivateKey = \<lparr>key_X = 1, key_Y = 2, key_D = 3\<rparr>,
             PublicKey = \<lparr>contents = replicate 64 171, spare = []\<rparr>\<rparr>"
  have n: "unat (drop_bit 4 (171 :: byte)) = 10" "unat ((171 :: byte) AND 0x0f) = 11"
    by simp_all
  have "EncodeToString [171] = ''ab''"
    by (simp add: EncodeToString_def hextable_def n)
  then have e: "EncodeToString (replicate 20 171) = ''abababababababababababababababababababab''"
    by (simp add: EncodeToString_def numeral_eq_Suc)
  have p: "drop 12 (prefix_digest 32 (replicate 64 171)) = replicate 20 171"
    by (simp add: prefix_digest_def)
  from GetEthAddress_hex [of "prefix_digest 32" ?w, OF length_prefix_digest]
  show ?thesis
    by (simp add: Let_def length_prefix_digest p e)
qed



text \<open>
  C8. The validator does not look at the version byte: every payload of at least 5 bytes
  whose last 4 bytes are the first 4 bytes of the double SHA-256 of the bytes before them
  validates, whatever its first byte.
\<close>

theorem validate_any_version:
  assumes "5 \<le> length payload"
    and "drop (length payload - 4) payload =
           take 4 (sha256 (sha256 (take (length payload - 4) payload)))"
  shows "ValidateAddress sha256 (base58Encode payload) = Inr True"
  using ValidateAddress_Encode [OF assms(1), of sha256] assms(2) by simp

theorem validate_any_version_witness:
  "hd [5, 1, 2, 3, 5, 1, 2, 3] \<noteq> walletVersion \<and>
   5 \<le> length [5, 1, 2, 3, 5, 1, 2, 3 :: byte] \<and>
   drop (length [5, 1, 2, 3, 5, 1, 2, 3 :: byte] - 4) [5, 1, 2, 3, 5, 1, 2, 3] =
     take 4 (prefix_digest 32 (prefix_digest 32
       (take (length [5, 1, 2, 3, 5, 1, 2, 3 :: byte] - 4) [5, 1, 2, 3, 5, 1, 2, 3]))) \<and>
   ValidateAddress (prefix_digest 32) (base58Encode [5, 1, 2, 3, 5, 1, 2, 3]) = Inr True"
proof -
  let ?p = "[5, 1, 2, 3, 5, 1, 2, 3 :: byte]"
  have a: "5 \<le> length ?p" by simp
  have b: "drop (length ?p - 4) ?p =
      take 4 (prefix_digest 32 (prefix_digest 32 (take (length ?p - 4) ?p)))"
    by (simp add: prefix_digest_def)
  from validate_any_version [of ?p "prefix_digest 32", OF a b] a b
  show ?thesis by (simp add: walletVersion_def)
qed

text \<open>
  C9, as stated: \<open>HashPubKey\<close> panics on every input shorter than 32 bytes. It does not:
  Go checks \<open>pubKey[:32]\<close> against the capacity. An empty slice of capacity 32 is hashed
  without a panic, from the 32 bytes of its backing array.
\<close>

theorem HashPubKey_short_input_returns:
  "slen \<lparr>contents = [], spare = replicate 32 7\<rparr> = 0 \<and>
   HashPubKey (prefix_digest 32) (prefix_digest 20) \<lparr>contents = [], spare = replicate 32 7\<rparr> =
     Inr [2, 7, 7, 7, 7, 7, 7, 7, 7, 7, 7, 7, 7, 7, 7, 7, 7, 7, 7, 7]"
proof -
  have "replicate 19 7 = [7, 7, 7, 7, 7, 7, 7, 7, 7, 7, 7, 7, 7, 7, 7, 7, 7, 7, 7 :: byte]"
    by (simp add: numeral_eq_Suc)
  then show ?thesis
    by (simp add: slen_def HashPubKey_def reslice_to_def scap_def Let_def prefix_digest_def
        compressedPublicKeyPrefix_def)
qed

text \<open>
  C9, amended. For every slice of length at least 32 \<open>HashPubKey\<close> returns the 20-byte
  digest \<open>ripemd160(sha256(0x02 \<parallel> first 32 bytes))\<close>. For a shorter slice it panics with
  a slice bound out of range when the capacity is below 32 (so whenever a short slice has
  no spare capacity); with a capacity of at least 32 it returns the digest of \<open>0x02\<close>, the
  elements and the bytes of the backing array that follow them, up to 32.
\<close>

theorem HashPubKey_needs_capacity:
  assumes "\<And>x. length (ripemd160 x) = 20"
  shows "(32 \<le> slen pubKey \<longrightarrow>
            HashPubKey sha256 ripemd160 pubKey =
              Inr (ripemd160 (sha256 (0x02 # take 32 (contents pubKey))))) \<and>
         (scap pubKey < 32 \<longrightarrow>
            HashPubKey sha256 ripemd160 pubKey = Inl SliceBoundsOutOfRange) \<and>
         (slen pubKey < 32 \<and> 32 \<le> scap pubKey \<longrightarrow>
            HashPubKey sha256 ripemd160 pubKey =
              Inr (ripemd160 (sha256 (0x02 # contents pubKey @ take (32 - slen pubKey) (spare pubKey))))) \<and>
         (\<forall>digest. HashPubKey sha256 ripemd160 pubKey = Inr digest \<longrightarrow> length digest = 20)"
proof -
  have a: "HashPubKey sha256 ripemd160 pubKey =
      Inr (ripemd160 (sha256 (0x02 # take 32 (contents pubKey))))" if "32 \<le> slen pubKey"
  proof -
    from that have "32 \<le> scap pubKey" by (simp add: slen_def scap_def)
    from HashPubKey_in_range [OF this, of sha256 ripemd160] that
    show ?thesis by (simp add: slen_def)
  qed
  have b: "HashPubKey sha256 ripemd160 pubKey =
      Inr (ripemd160 (sha256 (0x02 # contents pubKey @ take (32 - slen pubKey) (spare pubKey))))"
    if "slen pubKey < 32" "32 \<le> scap pubKey"
    using HashPubKey_in_range [OF that(2), of sha256 ripemd160] that(1)
    by (simp add: slen_def)
  have c: "length digest = 20" if "HashPubKey sha256 ripemd160 pubKey = Inr digest" for digest
    using that assms
    by (auto simp: HashPubKey_def Let_def split: sum.splits)
  show ?thesis
    using a b c HashPubKey_out_of_range [of pubKey sha256 ripemd160] by blast
qed

theorem HashPubKey_needs_capacity_witness:
  "(\<forall>x. length (prefix_digest 20 x) = 20) \<and>
   32 \<le> slen \<lparr>contents = replicate 64 9, spare = []\<rparr> \<and>
   HashPubKey (prefix_digest 32) (prefix_digest 20) \<lparr>contents = replicate 64 9, spare = []\<rparr> =
     Inr (prefix_digest 20 (prefix_digest 32 (0x02 # replicate 32 9))) \<and>
   scap \<lparr>contents = replicate 31 9, spare = []\<rparr> < 32 \<and>
   HashPubKey (prefix_digest 32) (prefix_digest 20) \<lparr>contents = replicate 31 9, spare = []\<rparr> =
     Inl SliceBoundsOutOfRange \<and>
   slen \<lparr>contents = replicate 31 9, spare = [0]\<rparr> < 32 \<and>
   32 \<le> scap \<lparr>contents = replicate 31 9, spare = [0]\<rparr> \<and>
   HashPubKey (prefix_digest 32) (prefix_digest 20) \<lparr>contents = replicate 31 9, spare = [0]\<rparr> =
     Inr (prefix_digest 20 (prefix_digest 32 (0x02 # replicate 31 9 @ [0]))) \<and>
   length (prefix_digest 20 (prefix_digest 32 (0x02 # replicate 31 9 @ [0]))) = 20"
proof -
  let ?a = "\<lparr>contents = replicate 64 9, spare = []\<rparr>"
  let ?b = "\<lparr>contents = replicate 31 9, spare = []\<rparr>"
  let ?c = "\<lparr>contents = replicate 31 9, spare = [0]\<rparr>"
  have ha: "32 \<le> slen ?a" by (simp add: slen_def)
  have hb: "scap ?b < 32" by (simp add: scap_def)
  have hc: "slen ?c < 32" "32 \<le> scap ?c" by (simp_all add: slen_def scap_def)
  have t: "take 32 (contents ?a) = replicate 32 9" "take (32 - slen ?c) (spare ?c) = [0]"
    "contents ?c = replicate 31 9"
    by (simp_all add: slen_def)
  note th = HashPubKey_needs_capacity [of "prefix_digest 20" _ "prefix_digest 32",
      OF length_prefix_digest]
  from th [of ?a] ha have ra: "HashPubKey (prefix_digest 32) (prefix_digest 20) ?a =
      Inr (prefix_digest 20 (prefix_digest 32 (0x02 # replicate 32 9)))"
    unfolding t by blast
  from th [of ?b] hb have rb: "HashPubKey (prefix_digest 32) (prefix_digest 20) ?b =
      Inl SliceBoundsOutOfRange"
    by blast
  from th [of ?c] hc have rc: "HashPubKey (prefix_digest 32) (prefix_digest 20) ?c =
      Inr (prefix_digest 20 (prefix_digest 32 (0x02 # replicate 31 9 @ [0])))"
    unfolding t by blast
  from th [of ?c] rc have rl:
    "length (prefix_digest 20 (prefix_digest 32 (0x02 # replicate 31 9 @ [0]))) = 20"
    by blast
  show ?thesis
    using ha hb hc ra rb rc rl length_prefix_digest by blast
qed



end
